theory Spec2Isabelle
  imports Main
begin

section \<open>Python strings\<close>

text \<open>
  A Python \<open>str\<close> is a sequence of Unicode code points; \<open>len\<close> counts code points.
  It is modelled as a list of natural numbers. ASCII literals are written through
  \<open>ascii\<close>, other characters by their code point.
\<close>

type_synonym ustring = "nat list"

definition ascii :: "string \<Rightarrow> ustring" where
  "ascii s = map of_char s"

text \<open>
  The character tables of the Unicode database that CPython consults
  (\<open>Py_UNICODE_ISSPACE\<close>, \<open>Py_UNICODE_ISDECIMAL\<close>, \<open>Py_UNICODE_ISALNUM\<close>,
  \<open>_PyUnicode_ToLowerFull\<close>, \<open>_PyUnicode_IsCased\<close>, \<open>_PyUnicode_IsCaseIgnorable\<close>)
  are not part of the repository. They are a parameter; only their ASCII part, which is
  fixed, is written out below. The two case-context tables matter only next to
  U+03A3 and are left to the parameter as a whole.
\<close>

record ucd =
  uc_space :: "nat \<Rightarrow> bool"
  uc_decimal :: "nat \<Rightarrow> bool"
  uc_alnum :: "nat \<Rightarrow> bool"
  uc_lower :: "nat \<Rightarrow> nat list"
  uc_cased :: "nat \<Rightarrow> bool"
  uc_case_ignorable :: "nat \<Rightarrow> bool"

definition isspace :: "ucd \<Rightarrow> nat \<Rightarrow> bool" where
  "isspace U c =
     (if c < 128 then (9 \<le> c \<and> c \<le> 13) \<or> (28 \<le> c \<and> c \<le> 32) else uc_space U c)"

definition isdecimal :: "ucd \<Rightarrow> nat \<Rightarrow> bool" where
  "isdecimal U c = (if c < 128 then 48 \<le> c \<and> c \<le> 57 else uc_decimal U c)"

definition isalnum :: "ucd \<Rightarrow> nat \<Rightarrow> bool" where
  "isalnum U c =
     (if c < 128 then (48 \<le> c \<and> c \<le> 57) \<or> (65 \<le> c \<and> c \<le> 90) \<or> (97 \<le> c \<and> c \<le> 122)
      else uc_alnum U c)"

definition tolower_full :: "ucd \<Rightarrow> nat \<Rightarrow> nat list" where
  "tolower_full U c =
     (if c < 128 then [if 65 \<le> c \<and> c \<le> 90 then c + 32 else c] else uc_lower U c)"

subsection \<open>\<open>str.lower\<close>\<close>

text \<open>
  \<open>str.lower()\<close> maps every character through the full lower-case mapping, except
  U+03A3 (capital sigma), which becomes U+03C2 in the final-sigma context (a cased
  character before it, skipping case-ignorable ones, and no cased character after it)
  and U+03C3 otherwise. \<open>passed\<close> is the text already passed, nearest character first.
\<close>

definition final_sigma :: "ucd \<Rightarrow> ustring \<Rightarrow> ustring \<Rightarrow> bool" where
  "final_sigma U passed ahead =
     ((case dropWhile (uc_case_ignorable U) passed of [] \<Rightarrow> False | p # _ \<Rightarrow> uc_cased U p) \<and>
      (case dropWhile (uc_case_ignorable U) ahead of [] \<Rightarrow> True | n # _ \<Rightarrow> \<not> uc_cased U n))"

fun lower_from :: "ucd \<Rightarrow> ustring \<Rightarrow> ustring \<Rightarrow> ustring" where
  "lower_from U passed [] = []"
| "lower_from U passed (c # cs) =
     (if c = 0x3A3 then [if final_sigma U passed cs then 0x3C2 else 0x3C3]
      else tolower_full U c) @ lower_from U (c # passed) cs"

definition lower :: "ucd \<Rightarrow> ustring \<Rightarrow> ustring" where
  "lower U s = lower_from U [] s"

subsection \<open>\<open>str.replace\<close>\<close>

text \<open>
  \<open>s.replace(old, new)\<close> replaces the non-overlapping occurrences of \<open>old\<close> from left
  to right; with an empty \<open>old\<close> it puts \<open>new\<close> before every character and at the end.
\<close>

function replace_from :: "ustring \<Rightarrow> ustring \<Rightarrow> ustring \<Rightarrow> ustring" where
  "replace_from old new s =
     (if s = [] \<or> old = [] then s
      else if take (length old) s = old then new @ replace_from old new (drop (length old) s)
      else hd s # replace_from old new (tl s))"
  by pat_completeness auto
termination
  by (relation "measure (\<lambda>(old, new, s). length s)") auto

declare replace_from.simps [simp del]

definition py_replace :: "ustring \<Rightarrow> ustring \<Rightarrow> ustring \<Rightarrow> ustring" where
  "py_replace old new s =
     (if old = [] then new @ concat (map (\<lambda>c. c # new) s) else replace_from old new s)"

section \<open>The regular expression of the space strategy\<close>

text \<open>
  \<open>re.findall(r"\b[^\s\d]+\b", expression, re.UNICODE)\<close>. The matcher's position in
  the subject is kept as the character before it (\<open>None\<close> at the start) and the text
  from it on. \<open>\b\<close> holds where exactly one of the two neighbours is a word character
  (alphanumeric or underscore); outside the string counts as a non-word character.
\<close>

definition is_word :: "ucd \<Rightarrow> nat \<Rightarrow> bool" where
  "is_word U c = (isalnum U c \<or> c = 0x5F)"

definition at_boundary :: "ucd \<Rightarrow> nat option \<Rightarrow> ustring \<Rightarrow> bool" where
  "at_boundary U prev rest =
     ((case prev of None \<Rightarrow> False | Some p \<Rightarrow> is_word U p) \<noteq>
      (case rest of [] \<Rightarrow> False | c # _ \<Rightarrow> is_word U c))"

definition in_run :: "ucd \<Rightarrow> nat \<Rightarrow> bool" where
  "in_run U c = (\<not> isspace U c \<and> \<not> isdecimal U c)"

text \<open>
  The greedy repeat first takes the longest run of \<open>[^\s\d]\<close>; the engine then gives
  characters back one at a time, down to one, until the closing \<open>\b\<close> holds.
\<close>

fun backtrack :: "ucd \<Rightarrow> ustring \<Rightarrow> nat \<Rightarrow> nat option" where
  "backtrack U rest 0 = None"
| "backtrack U rest (Suc k) =
     (if at_boundary U (Some (rest ! k)) (drop (Suc k) rest) then Some (Suc k)
      else backtrack U rest k)"

definition match_at :: "ucd \<Rightarrow> nat option \<Rightarrow> ustring \<Rightarrow> nat option" where
  "match_at U prev rest =
     (if at_boundary U prev rest then backtrack U rest (length (takeWhile (in_run U) rest))
      else None)"

text \<open>
  The scan: a match is reported and the search goes on at its end; where nothing matches
  the search moves one character on. A match is never empty.
\<close>

function findall_from :: "ucd \<Rightarrow> nat option \<Rightarrow> ustring \<Rightarrow> ustring list" where
  "findall_from U prev rest =
     (case match_at U prev rest of
        Some k \<Rightarrow> take k rest # findall_from U (Some (rest ! (k - 1))) (drop k rest)
      | None \<Rightarrow> (case rest of [] \<Rightarrow> [] | c # cs \<Rightarrow> findall_from U (Some c) cs))"
  by pat_completeness auto
termination
proof -
  have bt: "backtrack U rest n = Some j \<Longrightarrow> 0 < j \<and> j \<le> n" for U rest n j
    by (induction n) (auto split: if_splits)
  have m: "0 < k \<and> k \<le> length rest" if "match_at U prev rest = Some k" for U prev rest k
  proof -
    from that have "backtrack U rest (length (takeWhile (in_run U) rest)) = Some k"
      by (simp add: match_at_def split: if_splits)
    then have "0 < k \<and> k \<le> length (takeWhile (in_run U) rest)"
      by (rule bt)
    moreover have "length (takeWhile (in_run U) rest) \<le> length rest"
      by (rule length_takeWhile_le)
    ultimately show ?thesis by linarith
  qed
  show ?thesis
    by (relation "measure (\<lambda>(U, prev, rest). length rest)") (auto dest: m)
qed

declare findall_from.simps [simp del]

definition findall_words :: "ucd \<Rightarrow> ustring \<Rightarrow> ustring list" where
  "findall_words U expression = findall_from U None expression"

section \<open>Morphemes\<close>

text \<open>
  Modelled from the spec: the Morpheme record of \<open>morphemes.py\<close>, which is not among
  the sources: six fields, filled by the constructor in the order normalized, base,
  inflected, reading, primary tag, secondary tag.
\<close>

record morpheme =
  norm :: ustring
  base :: ustring
  inflected :: ustring
  read :: ustring
  pos :: ustring
  subPos :: ustring

definition Morpheme ::
  "ustring \<Rightarrow> ustring \<Rightarrow> ustring \<Rightarrow> ustring \<Rightarrow> ustring \<Rightarrow> ustring \<Rightarrow> morpheme" where
  "Morpheme n b i r p s =
     \<lparr>norm = n, base = b, inflected = i, read = r, pos = p, subPos = s\<rparr>"

section \<open>Space strategy\<close>

definition Space_getMorphemesFromExpr :: "ucd \<Rightarrow> ustring \<Rightarrow> morpheme list" where
  "Space_getMorphemesFromExpr U expression =
     (let word_list = map (lower U) (findall_words U expression)
      in map (\<lambda>word. Morpheme word word word word (ascii ''UNKNOWN'') (ascii ''UNKNOWN''))
           word_list)"

section \<open>Exceptions, objects and the program state\<close>

datatype exc = FileNotFoundError | IndexError | PermissionError | UnicodeDecodeError | RuntimeError

datatype cls =
  Morphemizer | SpaceMorphemizer | MecabMorphemizer | JiebaMorphemizer | CjkCharMorphemizer
  | VietnameseMorphemizer

text \<open>An object is its identity and its class; no strategy has instance attributes.\<close>

datatype pyobj = Obj nat cls

fun obj_id :: "pyobj \<Rightarrow> nat" where
  "obj_id (Obj i c) = i"

fun obj_class :: "pyobj \<Rightarrow> cls" where
  "obj_class (Obj i c) = c"

text \<open>
  What the program reads from outside: the Unicode tables, the character class
  \<open>characters\<close> of \<open>deps/zhon/hanzi.py\<close> (code-point ranges, bounds included), the two
  analyzers of \<open>mecab_wrapper.py\<close> and \<open>deps/jieba\<close>, and what opening and parsing the file
  at \<open>cfg('path_frequency')\<close> gives: an exception or the rows of the tab-separated file.
  The analyzers are external processes whose answer may change from one run to the next,
  so they also take the number of runs made before.
\<close>

record env =
  tables :: ucd
  characters :: "(nat \<times> nat) list"
  getMorphemesMecab :: "nat \<Rightarrow> ustring \<Rightarrow> exc + morpheme list"
  getMecabIdentity :: "exc + ustring"
  posseg_cut :: "nat \<Rightarrow> ustring \<Rightarrow> exc + (ustring \<times> ustring) list"
  frequency_file :: "exc + ustring list list"

text \<open>
  The module globals \<open>morphemizers\<close> and \<open>morphemizers_by_name\<close>, the two class attributes
  of \<open>VietnameseMorphemizer\<close>, the store of the \<open>lru_cache\<close> around
  \<open>getMorphemesFromExpr\<close> (most recently used entry first), a counter of the runs of
  \<open>_getMorphemesFromExpr\<close>, and the next free object identity.
\<close>

record state =
  morphemizers :: "pyobj list option"
  morphemizers_by_name :: "ustring \<rightharpoonup> pyobj"
  known_words :: "ustring list"
  known_words_underscored :: "ustring list"
  cache :: "((pyobj \<times> ustring) \<times> morpheme list) list"
  runs :: nat
  next_id :: nat

definition module_state :: state where
  "module_state =
     \<lparr>morphemizers = None, morphemizers_by_name = Map.empty, known_words = [],
      known_words_underscored = [], cache = [], runs = 0, next_id = 0\<rparr>"

section \<open>Vietnamese strategy\<close>

subsection \<open>Loading the vocabulary\<close>

definition sentinel :: ustring where
  "sentinel = ascii ''#study_plan_frequency''"

text \<open>\<open>[row[0] for row in rows]\<close>: a row without columns raises IndexError.\<close>

fun first_column :: "ustring list list \<Rightarrow> exc + ustring list" where
  "first_column [] = Inr []"
| "first_column ([] # rows) = Inl IndexError"
| "first_column ((c # cs) # rows) =
     (case first_column rows of Inl e \<Rightarrow> Inl e | Inr keys \<Rightarrow> Inr (c # keys))"

text \<open>The keys of \<open>dict(zip(keys, itertools.count(0)))\<close>: each key once, in the order of
  its first occurrence.\<close>

fun dict_keys :: "'a list \<Rightarrow> 'a list" where
  "dict_keys [] = []"
| "dict_keys (k # ks) = k # dict_keys (filter (\<lambda>x. x \<noteq> k) ks)"

definition append_known :: "ustring \<Rightarrow> state \<Rightarrow> state" where
  "append_known word st =
     (if 0x20 \<in> set word
      then st\<lparr>known_words := known_words st @ [word],
              known_words_underscored :=
                known_words_underscored st @ [py_replace [0x20] [0x5F] word]\<rparr>
      else st)"

text \<open>\<open>words.sort(key=len)\<close> is stable, as \<open>sort_key\<close> is; then \<open>words.reverse()\<close>.\<close>

definition setKnownWords :: "ustring list \<Rightarrow> state \<Rightarrow> state" where
  "setKnownWords words st = fold append_known (rev (sort_key length words)) st"

definition Vietnamese_init_body :: "env \<Rightarrow> state \<Rightarrow> (exc + unit) \<times> state" where
  "Vietnamese_init_body env st =
     (case frequency_file env of
        Inl e \<Rightarrow> (Inl e, st)
      | Inr rows \<Rightarrow>
          (case rows of
             [] \<Rightarrow> (Inl IndexError, st)
           | row0 # _ \<Rightarrow>
               (case row0 of
                  [] \<Rightarrow> (Inl IndexError, st)
                | c0 # _ \<Rightarrow>
                    if c0 \<noteq> sentinel
                    then (case first_column rows of
                            Inl e \<Rightarrow> (Inl e, st)
                          | Inr keys \<Rightarrow> (Inr (), setKnownWords (dict_keys keys) st))
                    else (Inr (), st))))"

text \<open>\<open>except (FileNotFoundError, IndexError): pass\<close>; any other exception goes on to
  the caller.\<close>

definition Vietnamese_init :: "env \<Rightarrow> state \<Rightarrow> (exc + unit) \<times> state" where
  "Vietnamese_init env st =
     (case Vietnamese_init_body env st of
        (Inl e, st1) \<Rightarrow>
          if e = FileNotFoundError \<or> e = IndexError then (Inr (), st1) else (Inl e, st1)
      | (Inr u, st1) \<Rightarrow> (Inr u, st1))"

subsection \<open>Segmentation\<close>

text \<open>The \<open>enumerate\<close> loop; \<open>self._known_words_underscored[i]\<close> raises IndexError
  out of range.\<close>

fun substitute :: "ustring list \<Rightarrow> ustring list \<Rightarrow> nat \<Rightarrow> ustring \<Rightarrow> exc + ustring" where
  "substitute [] us i e_low = Inr e_low"
| "substitute (word # ws) us i e_low =
     (if i < length us then substitute ws us (Suc i) (py_replace word (us ! i) e_low)
      else Inl IndexError)"

definition Vietnamese_getMorphemesFromExpr :: "ucd \<Rightarrow> state \<Rightarrow> ustring \<Rightarrow> exc + morpheme list"
  where
  "Vietnamese_getMorphemesFromExpr U st expression =
     (case substitute (known_words st) (known_words_underscored st) 0 (lower U expression) of
        Inl e \<Rightarrow> Inl e
      | Inr e_low \<Rightarrow>
          Inr (map (\<lambda>word. word\<lparr>base := py_replace [0x5F] [0x20] (base word)\<rparr>)
                 (Space_getMorphemesFromExpr U e_low)))"

section \<open>CJK-character, Japanese and Chinese strategies\<close>

definition in_characters :: "(nat \<times> nat) list \<Rightarrow> nat \<Rightarrow> bool" where
  "in_characters chs c = list_ex (\<lambda>(lo, hi). lo \<le> c \<and> c \<le> hi) chs"

text \<open>\<open>re.findall('[%s]' % characters, expression)\<close>: every character of the class, as
  a string of length one, in order.\<close>

definition findall_characters :: "(nat \<times> nat) list \<Rightarrow> ustring \<Rightarrow> ustring list" where
  "findall_characters chs expression = map (\<lambda>c. [c]) (filter (in_characters chs) expression)"

definition CjkChar_getMorphemesFromExpr :: "(nat \<times> nat) list \<Rightarrow> ustring \<Rightarrow> morpheme list" where
  "CjkChar_getMorphemesFromExpr chs expression =
     map (\<lambda>character. Morpheme character character character character
                        (ascii ''CJK_CHAR'') (ascii ''UNKNOWN''))
       (findall_characters chs expression)"

definition Mecab_getMorphemesFromExpr :: "env \<Rightarrow> nat \<Rightarrow> ustring \<Rightarrow> exc + morpheme list" where
  "Mecab_getMorphemesFromExpr env t expression =
     getMorphemesMecab env t (filter (\<lambda>c. c \<noteq> 0x20) expression)"

definition Jieba_getMorphemesFromExpr :: "env \<Rightarrow> nat \<Rightarrow> ustring \<Rightarrow> exc + morpheme list" where
  "Jieba_getMorphemesFromExpr env t expression =
     (case posseg_cut env t (concat (findall_characters (characters env) expression)) of
        Inl e \<Rightarrow> Inl e
      | Inr ms \<Rightarrow>
          Inr (map (\<lambda>(word, flag). Morpheme word word word word flag (ascii ''UNKNOWN'')) ms))"

section \<open>The strategy interface\<close>

text \<open>\<open>self._getMorphemesFromExpr(expression)\<close>, by the class of \<open>self\<close>.\<close>

definition inner_getMorphemesFromExpr ::
  "env \<Rightarrow> state \<Rightarrow> pyobj \<Rightarrow> ustring \<Rightarrow> exc + morpheme list" where
  "inner_getMorphemesFromExpr env st self expression =
     (case obj_class self of
        Morphemizer \<Rightarrow> Inr []
      | SpaceMorphemizer \<Rightarrow> Inr (Space_getMorphemesFromExpr (tables env) expression)
      | MecabMorphemizer \<Rightarrow> Mecab_getMorphemesFromExpr env (runs st) expression
      | JiebaMorphemizer \<Rightarrow> Jieba_getMorphemesFromExpr env (runs st) expression
      | CjkCharMorphemizer \<Rightarrow> Inr (CjkChar_getMorphemesFromExpr (characters env) expression)
      | VietnameseMorphemizer \<Rightarrow> Vietnamese_getMorphemesFromExpr (tables env) st expression)"

definition maxsize :: nat where
  "maxsize = 131072"

text \<open>
  \<open>@lru_cache(maxsize=131072)\<close>: the key is the pair of \<open>self\<close> and the expression. A hit
  returns the stored list and makes the entry the most recent one. A miss runs the
  method; an exception stores nothing; a result is stored as the most recent entry and
  the oldest entry is dropped when the store is over its size.
\<close>

definition getMorphemesFromExpr ::
  "env \<Rightarrow> pyobj \<Rightarrow> ustring \<Rightarrow> state \<Rightarrow> (exc + morpheme list) \<times> state" where
  "getMorphemesFromExpr env self expression st =
     (let key = (self, expression) in
      case map_of (cache st) key of
        Some morphs \<Rightarrow>
          (Inr morphs, st\<lparr>cache := (key, morphs) # filter (\<lambda>e. fst e \<noteq> key) (cache st)\<rparr>)
      | None \<Rightarrow>
          (let st1 = st\<lparr>runs := Suc (runs st)\<rparr> in
           case inner_getMorphemesFromExpr env st self expression of
             Inl e \<Rightarrow> (Inl e, st1)
           | Inr morphs \<Rightarrow> (Inr morphs, st1\<lparr>cache := take maxsize ((key, morphs) # cache st)\<rparr>)))"

definition getName :: "pyobj \<Rightarrow> ustring" where
  "getName self =
     (case obj_class self of
        Morphemizer \<Rightarrow> ascii ''Morphemizer''
      | SpaceMorphemizer \<Rightarrow> ascii ''SpaceMorphemizer''
      | MecabMorphemizer \<Rightarrow> ascii ''MecabMorphemizer''
      | JiebaMorphemizer \<Rightarrow> ascii ''JiebaMorphemizer''
      | CjkCharMorphemizer \<Rightarrow> ascii ''CjkCharMorphemizer''
      | VietnameseMorphemizer \<Rightarrow> ascii ''VietnameseMorphemizer'')"

definition getDescription :: "env \<Rightarrow> pyobj \<Rightarrow> exc + ustring" where
  "getDescription env self =
     (case obj_class self of
        Morphemizer \<Rightarrow> Inr (ascii ''No information available'')
      | SpaceMorphemizer \<Rightarrow> Inr (ascii ''Language w/ Spaces'')
      | MecabMorphemizer \<Rightarrow>
          (let identity = (case getMecabIdentity env of
                             Inl e \<Rightarrow> ascii ''UNAVAILABLE''
                           | Inr s \<Rightarrow> s)
           in Inr (ascii ''Japanese '' @ identity))
      | JiebaMorphemizer \<Rightarrow> Inr (ascii ''Chinese'')
      | CjkCharMorphemizer \<Rightarrow> Inr (ascii ''CJK Characters'')
      | VietnameseMorphemizer \<Rightarrow> Inr (ascii ''Vietnamese''))"

section \<open>The registry\<close>

text \<open>Calling a class: a new object, then its \<open>__init__\<close>; only the Vietnamese
  strategy has one that does anything.\<close>

definition construct :: "env \<Rightarrow> cls \<Rightarrow> state \<Rightarrow> (exc + pyobj) \<times> state" where
  "construct env c st =
     (let self = Obj (next_id st) c; st1 = st\<lparr>next_id := Suc (next_id st)\<rparr> in
      if c = VietnameseMorphemizer
      then (case Vietnamese_init env st1 of
              (Inl e, st2) \<Rightarrow> (Inl e, st2)
            | (Inr u, st2) \<Rightarrow> (Inr self, st2))
      else (Inr self, st1))"

text \<open>The list display: the constructors run from left to right, and the first
  exception ends the evaluation.\<close>

fun construct_all :: "env \<Rightarrow> cls list \<Rightarrow> state \<Rightarrow> (exc + pyobj list) \<times> state" where
  "construct_all env [] st = (Inr [], st)"
| "construct_all env (c # cs) st =
     (case construct env c st of
        (Inl e, st1) \<Rightarrow> (Inl e, st1)
      | (Inr m, st1) \<Rightarrow>
          (case construct_all env cs st1 of
             (Inl e, st2) \<Rightarrow> (Inl e, st2)
           | (Inr ms, st2) \<Rightarrow> (Inr (m # ms), st2)))"

definition getAllMorphemizers :: "env \<Rightarrow> state \<Rightarrow> (exc + pyobj list) \<times> state" where
  "getAllMorphemizers env st =
     (case morphemizers st of
        Some ms \<Rightarrow> (Inr ms, st)
      | None \<Rightarrow>
          (case construct_all env
                  [SpaceMorphemizer, MecabMorphemizer, JiebaMorphemizer, CjkCharMorphemizer,
                   VietnameseMorphemizer] st of
             (Inl e, st1) \<Rightarrow> (Inl e, st1)
           | (Inr ms, st1) \<Rightarrow>
               (Inr ms,
                st1\<lparr>morphemizers := Some ms,
                    morphemizers_by_name :=
                      fold (\<lambda>m tbl. tbl(getName m \<mapsto> m)) ms (morphemizers_by_name st1)\<rparr>)))"

definition getMorphemizerByName ::
  "env \<Rightarrow> ustring \<Rightarrow> state \<Rightarrow> (exc + pyobj option) \<times> state" where
  "getMorphemizerByName env name st =
     (case getAllMorphemizers env st of
        (Inl e, st1) \<Rightarrow> (Inl e, st1)
      | (Inr ms, st1) \<Rightarrow> (Inr (morphemizers_by_name st1 name), st1))"

section \<open>Example surroundings\<close>

text \<open>
  An excerpt of the Unicode tables, for the characters of the examples: U+00E1, U+00EC,
  U+00F4 and U+0103 are lower-case letters, U+4E2D and U+6587 are ideographs, U+00A0 is
  a space. The excerpt gives no other code point beyond ASCII a class or a case mapping.
\<close>

definition ucd_excerpt :: ucd where
  "ucd_excerpt =
     \<lparr>uc_space = (\<lambda>c. c = 0xA0),
      uc_decimal = (\<lambda>c. False),
      uc_alnum = (\<lambda>c. c = 0xE1 \<or> c = 0xEC \<or> c = 0xF4 \<or> c = 0x103 \<or> c = 0x4E2D \<or> c = 0x6587),
      uc_lower = (\<lambda>c. [c]),
      uc_cased = (\<lambda>c. c = 0xE1 \<or> c = 0xEC \<or> c = 0xF4 \<or> c = 0x103),
      uc_case_ignorable = (\<lambda>c. False)\<rparr>"

text \<open>The Unicode blocks of CJK ideographs, as a value for \<open>characters\<close>.\<close>

definition ideograph_blocks :: "(nat \<times> nat) list" where
  "ideograph_blocks =
     [(0x3007, 0x3007), (0x4E00, 0x9FFF), (0x3400, 0x4DBF), (0xF900, 0xFAFF),
      (0x20000, 0x2A6DF), (0x2A700, 0x2B73F), (0x2B740, 0x2B81F), (0x2F800, 0x2FA1F)]"

text \<open>Surroundings in which both analyzers are out of reach and there is no vocabulary
  file.\<close>

definition example_env :: env where
  "example_env =
     \<lparr>tables = ucd_excerpt,
      characters = ideograph_blocks,
      getMorphemesMecab = (\<lambda>t e. Inl RuntimeError),
      getMecabIdentity = Inl RuntimeError,
      posseg_cut = (\<lambda>t e. Inl RuntimeError),
      frequency_file = Inl FileNotFoundError\<rparr>"

section \<open>Notions used in the statements\<close>

text \<open>What one call of \<open>_setKnownWords\<close> appends for the first-column entries
  \<open>keys\<close> of a file: the entries with a space, longest first.\<close>

definition compounds :: "ustring list \<Rightarrow> ustring list" where
  "compounds keys = filter (\<lambda>w. 0x20 \<in> set w) (rev (sort_key length (dict_keys keys)))"

text \<open>The Vietnamese texts of the examples, with U+00E1, U+00EC, U+00F4 and U+0103
  precomposed.\<close>

definition banh :: ustring where
  "banh = ascii ''b'' @ [0xE1] @ ascii ''nh''"

definition banh_mi :: ustring where
  "banh_mi = ascii ''b'' @ [0xE1] @ ascii ''nh m'' @ [0xEC]"

definition banh_mi_joined :: ustring where
  "banh_mi_joined = ascii ''b'' @ [0xE1] @ ascii ''nh_m'' @ [0xEC]"

definition toi :: ustring where
  "toi = ascii ''t'' @ [0xF4] @ ascii ''i''"

definition an :: ustring where
  "an = [0x103] @ ascii ''n''"

definition toi_an_banh_mi :: ustring where
  "toi_an_banh_mi = toi @ ascii '' '' @ an @ ascii '' '' @ banh_mi"

text \<open>Unicode tables in which the four letters are what they are in Unicode:
  alphanumeric, neither space nor digit, and their own lower case.\<close>

definition vietnamese_letters :: "ucd \<Rightarrow> bool" where
  "vietnamese_letters U =
     list_all (\<lambda>c. uc_alnum U c \<and> \<not> uc_space U c \<and> \<not> uc_decimal U c \<and> uc_lower U c = [c])
       [0xE1, 0xEC, 0xF4, 0x103]"

text \<open>
  A character is case-stable when \<open>str.lower\<close> maps it, whatever stands around it, to one
  character that is not the underscore, is its own lower case and is in the same classes
  for the expression of the space strategy. All ASCII characters but the underscore are.
\<close>

definition simple_lower :: "ucd \<Rightarrow> nat \<Rightarrow> nat" where
  "simple_lower U c = (case tolower_full U c of [d] \<Rightarrow> d | _ \<Rightarrow> c)"

definition case_stable :: "ucd \<Rightarrow> nat \<Rightarrow> bool" where
  "case_stable U c =
     (c \<noteq> 0x3A3 \<and>
      (case tolower_full U c of
         [d] \<Rightarrow> d \<noteq> 0x3A3 \<and> d \<noteq> 0x5F \<and> tolower_full U d = [d] \<and>
                is_word U d = is_word U c \<and> in_run U d = in_run U c
       | _ \<Rightarrow> False))"

text \<open>A character map that keeps the two classes the expression looks at.\<close>

definition keeps_classes :: "ucd \<Rightarrow> (nat \<Rightarrow> nat) \<Rightarrow> nat \<Rightarrow> bool" where
  "keeps_classes U f c = (is_word U (f c) = is_word U c \<and> in_run U (f c) = in_run U c)"

section \<open>Evaluation\<close>

lemmas char_class_defs =
  isspace_def isdecimal_def isalnum_def is_word_def in_run_def tolower_full_def

lemmas matcher_defs =
  findall_words_def findall_from.simps match_at_def at_boundary_def

section \<open>Space strategy: the example of the specification\<close>

text \<open>
  C5. The space strategy turns \<open>"The Quick fox2 jumps"\<close> into three morphemes whose bases
  are \<open>"the"\<close>, \<open>"quick"\<close>, \<open>"jumps"\<close>, in this order, whatever the Unicode tables say
  beyond ASCII; all four text fields of each are the lower-cased word and both tags are
  UNKNOWN. No morpheme comes from \<open>"fox2"\<close>: it is left out as a whole, not cut to
  \<open>"fox"\<close>.
\<close>

theorem space_example:
  "Space_getMorphemesFromExpr U (ascii ''The Quick fox2 jumps'') =
     map (\<lambda>w. Morpheme w w w w (ascii ''UNKNOWN'') (ascii ''UNKNOWN''))
       [ascii ''the'', ascii ''quick'', ascii ''jumps''] \<and>
   map base (Space_getMorphemesFromExpr U (ascii ''The Quick fox2 jumps'')) =
     [ascii ''the'', ascii ''quick'', ascii ''jumps'']"
  by (simp add: Space_getMorphemesFromExpr_def matcher_defs char_class_defs ascii_def
        lower_def Morpheme_def)

theorem space_example_witness:
  "map base (Space_getMorphemesFromExpr ucd_excerpt (ascii ''The Quick fox2 jumps'')) =
     [ascii ''the'', ascii ''quick'', ascii ''jumps'']"
  using space_example [of ucd_excerpt] by (rule conjunct2)

section \<open>CJK-character strategy: the example of the specification\<close>

text \<open>
  C6. For every character class \<open>characters\<close> that holds U+4E2D and U+6587 and none of
  \<open>a\<close>, \<open>b\<close>, \<open>c\<close>, \<open>!\<close>, the CJK-character strategy turns \<open>"abc"\<close> followed by U+4E2D,
  U+6587 and \<open>"!"\<close> into exactly two morphemes, U+4E2D then U+6587, each with the tags
  CJK_CHAR and UNKNOWN; the other characters leave no trace.
\<close>

theorem cjk_example:
  assumes "in_characters chs 0x4E2D" and "in_characters chs 0x6587"
    and "\<not> in_characters chs 0x61" and "\<not> in_characters chs 0x62"
    and "\<not> in_characters chs 0x63" and "\<not> in_characters chs 0x21"
  shows "CjkChar_getMorphemesFromExpr chs (ascii ''abc'' @ [0x4E2D, 0x6587] @ ascii ''!'') =
           [\<lparr>norm = [0x4E2D], base = [0x4E2D], inflected = [0x4E2D], read = [0x4E2D],
             pos = ascii ''CJK_CHAR'', subPos = ascii ''UNKNOWN''\<rparr>,
            \<lparr>norm = [0x6587], base = [0x6587], inflected = [0x6587], read = [0x6587],
             pos = ascii ''CJK_CHAR'', subPos = ascii ''UNKNOWN''\<rparr>]"
  using assms
  by (simp add: CjkChar_getMorphemesFromExpr_def findall_characters_def ascii_def Morpheme_def)

theorem cjk_example_witness:
  "map base (CjkChar_getMorphemesFromExpr ideograph_blocks
              (ascii ''abc'' @ [0x4E2D, 0x6587] @ ascii ''!'')) = [[0x4E2D], [0x6587]]"
proof -
  have "in_characters ideograph_blocks 0x4E2D" and "in_characters ideograph_blocks 0x6587"
    and "\<not> in_characters ideograph_blocks 0x61" and "\<not> in_characters ideograph_blocks 0x62"
    and "\<not> in_characters ideograph_blocks 0x63" and "\<not> in_characters ideograph_blocks 0x21"
    by (simp_all add: in_characters_def ideograph_blocks_def)
  from cjk_example [OF this] show ?thesis by simp
qed

section \<open>Japanese strategy: the description\<close>

text \<open>
  C9. \<open>getDescription\<close> returns a text for every strategy and in all surroundings, and
  when the analyzer's identity query raises, whatever the exception, the Japanese
  strategy's description is \<open>"Japanese UNAVAILABLE"\<close>.
\<close>

theorem description_never_raises:
  "(\<exists>d. getDescription env self = Inr d) \<and>
   (getMecabIdentity env = Inl e \<longrightarrow>
      getDescription env (Obj i MecabMorphemizer) = Inr (ascii ''Japanese UNAVAILABLE''))"
  by (cases self) (simp add: getDescription_def ascii_def split: cls.split)

theorem description_never_raises_witness:
  "getMecabIdentity example_env = Inl RuntimeError \<and>
   getDescription example_env (Obj 1 MecabMorphemizer) = Inr (ascii ''Japanese UNAVAILABLE'')"
proof -
  have h: "getMecabIdentity example_env = Inl RuntimeError"
    by (simp add: example_env_def)
  from description_never_raises [of example_env "Obj 1 MecabMorphemizer" RuntimeError 1] h
  show ?thesis by blast
qed

section \<open>The memoizing dispatch\<close>

lemma take_maxsize_Cons: "take maxsize (x # xs) = x # take (maxsize - 1) xs"
  by (simp add: maxsize_def take_Cons')

text \<open>
  C7. When a call of \<open>getMorphemesFromExpr\<close> on an object and an expression returns a
  list, the next call on the same object and expression returns the same list without
  running \<open>_getMorphemesFromExpr\<close> (the run counter stays), even if the surroundings
  have changed in between; the two calls together run the method at most once, and
  exactly once when the first call found nothing stored.
\<close>

theorem cache_hit:
  assumes "getMorphemesFromExpr env self expression st = (Inr morphs, st1)"
  shows "fst (getMorphemesFromExpr env' self expression st1) = Inr morphs \<and>
         runs (snd (getMorphemesFromExpr env' self expression st1)) = runs st1 \<and>
         runs st1 \<le> Suc (runs st) \<and>
         (map_of (cache st) (self, expression) = None \<longrightarrow> runs st1 = Suc (runs st))"
proof (cases "map_of (cache st) (self, expression)")
  case None
  with assms have inner: "inner_getMorphemesFromExpr env st self expression = Inr morphs"
    and st1: "st1 = st\<lparr>runs := Suc (runs st),
                        cache := take maxsize (((self, expression), morphs) # cache st)\<rparr>"
    by (auto simp: getMorphemesFromExpr_def Let_def split: sum.splits)
  have "map_of (cache st1) (self, expression) = Some morphs"
    by (simp add: st1 take_maxsize_Cons)
  then show ?thesis
    using None by (simp add: getMorphemesFromExpr_def st1 Let_def)
next
  case (Some m)
  with assms have m: "m = morphs"
    and st1: "st1 = st\<lparr>cache := ((self, expression), morphs) #
                         filter (\<lambda>e. fst e \<noteq> (self, expression)) (cache st)\<rparr>"
    by (auto simp: getMorphemesFromExpr_def Let_def)
  have "map_of (cache st1) (self, expression) = Some morphs"
    by (simp add: st1)
  then show ?thesis
    using Some by (simp add: getMorphemesFromExpr_def st1 Let_def)
qed

theorem cache_hit_witness:
  "fst (getMorphemesFromExpr example_env (Obj 0 SpaceMorphemizer) (ascii ''a b'') module_state) =
     Inr (map (\<lambda>w. Morpheme w w w w (ascii ''UNKNOWN'') (ascii ''UNKNOWN'')) [ascii ''a'', ascii ''b'']) \<and>
   fst (getMorphemesFromExpr example_env (Obj 0 SpaceMorphemizer) (ascii ''a b'')
         (snd (getMorphemesFromExpr example_env (Obj 0 SpaceMorphemizer) (ascii ''a b'') module_state))) =
     Inr (map (\<lambda>w. Morpheme w w w w (ascii ''UNKNOWN'') (ascii ''UNKNOWN'')) [ascii ''a'', ascii ''b'']) \<and>
   runs (snd (getMorphemesFromExpr example_env (Obj 0 SpaceMorphemizer) (ascii ''a b'')
         (snd (getMorphemesFromExpr example_env (Obj 0 SpaceMorphemizer) (ascii ''a b'') module_state)))) = 1"
proof -
  let ?r = "getMorphemesFromExpr example_env (Obj 0 SpaceMorphemizer) (ascii ''a b'') module_state"
  let ?ms = "map (\<lambda>w. Morpheme w w w w (ascii ''UNKNOWN'') (ascii ''UNKNOWN'')) [ascii ''a'', ascii ''b'']"
  have f: "fst ?r = Inr ?ms"
    by (simp add: getMorphemesFromExpr_def module_state_def inner_getMorphemesFromExpr_def
          Space_getMorphemesFromExpr_def matcher_defs char_class_defs ascii_def lower_def
          Morpheme_def example_env_def)
  have r: "runs (snd ?r) = 1" and c: "map_of (cache module_state) (Obj 0 SpaceMorphemizer, ascii ''a b'') = None"
    by (simp_all add: getMorphemesFromExpr_def module_state_def inner_getMorphemesFromExpr_def Let_def
          split: sum.splits)
  have h: "?r = (Inr ?ms, snd ?r)"
    using f by (simp add: prod_eq_iff)
  from cache_hit [OF h, of example_env] f r show ?thesis by simp
qed

section \<open>The vocabulary lists and the registry\<close>

lemma fold_append_known:
  "fold append_known ws st =
     st\<lparr>known_words := known_words st @ filter (\<lambda>w. 0x20 \<in> set w) ws,
        known_words_underscored :=
          known_words_underscored st @
          map (py_replace [0x20] [0x5F]) (filter (\<lambda>w. 0x20 \<in> set w) ws)\<rparr>"
  by (induction ws arbitrary: st) (simp_all add: append_known_def)

lemma setKnownWords_eq:
  "setKnownWords words st =
     st\<lparr>known_words := known_words st @ filter (\<lambda>w. 0x20 \<in> set w) (rev (sort_key length words)),
        known_words_underscored :=
          known_words_underscored st @
          map (py_replace [0x20] [0x5F])
            (filter (\<lambda>w. 0x20 \<in> set w) (rev (sort_key length words)))\<rparr>"
  by (simp add: setKnownWords_def fold_append_known)

lemma Vietnamese_init_frame:
  assumes "Vietnamese_init env st = (r, st1)"
  shows "morphemizers st1 = morphemizers st \<and>
         morphemizers_by_name st1 = morphemizers_by_name st \<and>
         next_id st1 = next_id st \<and> cache st1 = cache st \<and> runs st1 = runs st"
  using assms
  by (auto simp: Vietnamese_init_def Vietnamese_init_body_def setKnownWords_eq
           split: sum.splits list.splits if_splits)

lemma construct_other:
  "c \<noteq> VietnameseMorphemizer \<Longrightarrow>
   construct env c st = (Inr (Obj (next_id st) c), st\<lparr>next_id := Suc (next_id st)\<rparr>)"
  by (simp add: construct_def Let_def)

lemma construct_Vietnamese:
  assumes "construct env VietnameseMorphemizer st = (Inr m, st1)"
  shows "m = Obj (next_id st) VietnameseMorphemizer \<and> morphemizers st1 = morphemizers st \<and>
         morphemizers_by_name st1 = morphemizers_by_name st"
proof -
  obtain r st2 where v: "Vietnamese_init env (st\<lparr>next_id := Suc (next_id st)\<rparr>) = (r, st2)"
    by (cases "Vietnamese_init env (st\<lparr>next_id := Suc (next_id st)\<rparr>)")
  from Vietnamese_init_frame [OF v] assms v show ?thesis
    by (auto simp: construct_def Let_def split: sum.splits)
qed

lemma getAll_first:
  assumes "morphemizers st = None" and "getAllMorphemizers env st = (Inr ms, st1)"
  shows "ms = [Obj (next_id st) SpaceMorphemizer, Obj (Suc (next_id st)) MecabMorphemizer,
               Obj (Suc (Suc (next_id st))) JiebaMorphemizer,
               Obj (Suc (Suc (Suc (next_id st)))) CjkCharMorphemizer,
               Obj (Suc (Suc (Suc (Suc (next_id st))))) VietnameseMorphemizer] \<and>
         morphemizers st1 = Some ms \<and>
         morphemizers_by_name st1 = fold (\<lambda>m tbl. tbl(getName m \<mapsto> m)) ms (morphemizers_by_name st)"
proof -
  let ?s4 = "st\<lparr>next_id := Suc (Suc (Suc (Suc (next_id st))))\<rparr>"
  obtain r st5 where c: "construct env VietnameseMorphemizer ?s4 = (r, st5)"
    by (cases "construct env VietnameseMorphemizer ?s4")
  show ?thesis
  proof (cases r)
    case (Inl e)
    with assms c show ?thesis
      by (simp add: getAllMorphemizers_def construct_other)
  next
    case (Inr m)
    with c have "construct env VietnameseMorphemizer ?s4 = (Inr m, st5)" by simp
    from construct_Vietnamese [OF this] assms c Inr show ?thesis
      by (auto simp: getAllMorphemizers_def construct_other)
  qed
qed

text \<open>
  C8. From the state of the freshly loaded module: when \<open>getAllMorphemizers\<close> returns,
  it returns five objects of the classes Space, Mecab, Jieba, CjkChar, Vietnamese in this
  order, with five different identities; a further call, in whatever surroundings,
  returns the very same list (same identities, same order) and changes nothing; and
  \<open>getMorphemizerByName\<close> with \<open>"Klingon"\<close>, or any name that is not the class name of
  one of the five, returns None, before or after that first call.
\<close>

theorem registry_stable:
  assumes "morphemizers st = None" and "morphemizers_by_name st = Map.empty"
    and "getAllMorphemizers env st = (Inr ms, st1)"
  shows "getAllMorphemizers env' st1 = (Inr ms, st1) \<and>
         map obj_class ms = [SpaceMorphemizer, MecabMorphemizer, JiebaMorphemizer,
                             CjkCharMorphemizer, VietnameseMorphemizer] \<and>
         distinct (map obj_id ms) \<and>
         getMorphemizerByName env' (ascii ''Klingon'') st1 = (Inr None, st1) \<and>
         getMorphemizerByName env (ascii ''Klingon'') st = (Inr None, st1) \<and>
         (name \<notin> set (map getName ms) \<longrightarrow> getMorphemizerByName env' name st1 = (Inr None, st1))"
proof -
  note f = getAll_first [OF assms(1) assms(3)]
  have again: "getAllMorphemizers env' st1 = (Inr ms, st1)"
    using f by (simp add: getAllMorphemizers_def)
  have by_name: "morphemizers_by_name st1 n = None" if "n \<notin> set (map getName ms)" for n
    using f that assms(2) by auto
  have k: "ascii ''Klingon'' \<notin> set (map getName ms)"
    using f by (simp add: getName_def ascii_def)
  show ?thesis
    using f again by_name k assms(3)
    by (simp add: getMorphemizerByName_def)
qed


theorem registry_stable_witness:
  "morphemizers module_state = None \<and> morphemizers_by_name module_state = Map.empty \<and>
   fst (getAllMorphemizers example_env module_state) =
     Inr [Obj 0 SpaceMorphemizer, Obj 1 MecabMorphemizer, Obj 2 JiebaMorphemizer,
          Obj 3 CjkCharMorphemizer, Obj 4 VietnameseMorphemizer] \<and>
   fst (getAllMorphemizers example_env (snd (getAllMorphemizers example_env module_state))) =
     Inr [Obj 0 SpaceMorphemizer, Obj 1 MecabMorphemizer, Obj 2 JiebaMorphemizer,
          Obj 3 CjkCharMorphemizer, Obj 4 VietnameseMorphemizer] \<and>
   fst (getMorphemizerByName example_env (ascii ''Klingon'') module_state) = Inr None"
proof -
  let ?r = "getAllMorphemizers example_env module_state"
  let ?ms = "[Obj 0 SpaceMorphemizer, Obj 1 MecabMorphemizer, Obj 2 JiebaMorphemizer,
              Obj 3 CjkCharMorphemizer, Obj 4 VietnameseMorphemizer]"
  have n: "morphemizers module_state = None" and e: "morphemizers_by_name module_state = Map.empty"
    by (simp_all add: module_state_def)
  have f: "fst ?r = Inr ?ms"
    by (simp add: getAllMorphemizers_def module_state_def construct_def Vietnamese_init_def
          Vietnamese_init_body_def example_env_def Let_def)
  then have h: "?r = (Inr ?ms, snd ?r)"
    by (simp add: prod_eq_iff)
  from registry_stable [OF n e h, of example_env] n e f show ?thesis by simp
qed

lemma first_column_empty_row: "[] \<in> set rows \<Longrightarrow> first_column rows = Inl IndexError"
  by (induction rows rule: first_column.induct) auto

section \<open>Loading failures of the Vietnamese vocabulary\<close>

text \<open>
  C2, as stated, fails for an unreadable file: a PermissionError raised while opening
  the file is not in the \<open>except\<close> clause and leaves the constructor.
\<close>

theorem unreadable_file_raises:
  "fst (construct (example_env\<lparr>frequency_file := Inl PermissionError\<rparr>) VietnameseMorphemizer
         module_state) = Inl PermissionError"
  by (simp add: construct_def Vietnamese_init_def Vietnamese_init_body_def Let_def)

text \<open>
  C2, amended. When the vocabulary file is absent (FileNotFoundError), or empty, or has a
  row without columns (IndexError), the construction of the Vietnamese strategy returns
  the new object and leaves both vocabulary lists as they were, so empty for the first
  object; every other exception of reading the file reaches the caller.
\<close>

theorem vocabulary_load_failures:
  "(frequency_file env = Inl FileNotFoundError \<or> frequency_file env = Inr [] \<or>
    (\<exists>rows. frequency_file env = Inr rows \<and> [] \<in> set rows) \<longrightarrow>
      construct env VietnameseMorphemizer st =
        (Inr (Obj (next_id st) VietnameseMorphemizer), st\<lparr>next_id := Suc (next_id st)\<rparr>) \<and>
      known_words (snd (construct env VietnameseMorphemizer st)) = known_words st \<and>
      known_words_underscored (snd (construct env VietnameseMorphemizer st)) =
        known_words_underscored st) \<and>
   (frequency_file env = Inl e \<and> e \<noteq> FileNotFoundError \<and> e \<noteq> IndexError \<longrightarrow>
      fst (construct env VietnameseMorphemizer st) = Inl e)"
proof -
  let ?st = "st\<lparr>next_id := Suc (next_id st)\<rparr>"
  have a: "Vietnamese_init env ?st = (Inr (), ?st)" if "frequency_file env = Inl FileNotFoundError"
    using that by (simp add: Vietnamese_init_def Vietnamese_init_body_def)
  have b: "Vietnamese_init env ?st = (Inr (), ?st)" if "frequency_file env = Inr []"
    using that by (simp add: Vietnamese_init_def Vietnamese_init_body_def)
  have c: "Vietnamese_init env ?st = (Inr (), ?st)"
    if "frequency_file env = Inr rows" and "[] \<in> set rows" for rows
    using that first_column_empty_row [OF that(2)]
    by (simp add: Vietnamese_init_def Vietnamese_init_body_def split: list.splits)
  have d: "Vietnamese_init env ?st = (Inl e, ?st)"
    if "frequency_file env = Inl e" and "e \<noteq> FileNotFoundError" and "e \<noteq> IndexError"
    using that by (simp add: Vietnamese_init_def Vietnamese_init_body_def)
  have "construct env VietnameseMorphemizer st = (Inr (Obj (next_id st) VietnameseMorphemizer), ?st)"
    if "Vietnamese_init env ?st = (Inr (), ?st)"
    using that by (simp add: construct_def Let_def)
  moreover have "fst (construct env VietnameseMorphemizer st) = Inl e"
    if "Vietnamese_init env ?st = (Inl e, ?st)"
    using that by (simp add: construct_def Let_def)
  ultimately show ?thesis
    using a b c d by auto
qed

theorem vocabulary_load_failures_witness:
  "frequency_file example_env = Inl FileNotFoundError \<and>
   [] \<in> set [[ascii ''hot dog''], []] \<and>
   construct example_env VietnameseMorphemizer module_state =
     (Inr (Obj 0 VietnameseMorphemizer), module_state\<lparr>next_id := 1\<rparr>) \<and>
   known_words (snd (construct example_env VietnameseMorphemizer module_state)) = [] \<and>
   known_words (snd (construct (example_env\<lparr>frequency_file := Inr [[ascii ''hot dog''], []]\<rparr>)
                       VietnameseMorphemizer module_state)) = [] \<and>
   fst (construct (example_env\<lparr>frequency_file := Inr [[ascii ''hot dog''], []]\<rparr>)
                       VietnameseMorphemizer module_state) = Inr (Obj 0 VietnameseMorphemizer)"
proof -
  let ?env = "example_env\<lparr>frequency_file := Inr [[ascii ''hot dog''], []]\<rparr>"
  have h: "frequency_file example_env = Inl FileNotFoundError"
    by (simp add: example_env_def)
  have h2: "\<exists>rows. frequency_file ?env = Inr rows \<and> [] \<in> set rows"
    by simp
  have z: "next_id module_state = 0" "known_words module_state = []"
    by (simp_all add: module_state_def)
  from vocabulary_load_failures [of example_env module_state RuntimeError]
       vocabulary_load_failures [of ?env module_state RuntimeError] h h2 z
  show ?thesis by simp
qed

section \<open>Shared vocabulary\<close>

lemma Vietnamese_init_valid:
  assumes "frequency_file env = Inr rows" and "rows \<noteq> []"
    and "first_column rows = Inr keys" and "hd keys \<noteq> sentinel"
  shows "Vietnamese_init env st = (Inr (), setKnownWords (dict_keys keys) st)"
proof -
  from assms(2) obtain row0 rs where rows: "rows = row0 # rs"
    by (cases rows) auto
  from assms(3) rows obtain c0 cs where row0: "row0 = c0 # cs"
    by (cases row0) auto
  from assms(3) rows row0 have "hd keys = c0"
    by (auto split: sum.splits)
  with assms show ?thesis
    by (simp add: Vietnamese_init_def Vietnamese_init_body_def rows row0)
qed

lemma construct_valid:
  assumes "frequency_file env = Inr rows" and "rows \<noteq> []"
    and "first_column rows = Inr keys" and "hd keys \<noteq> sentinel"
  shows "construct env VietnameseMorphemizer st =
           (Inr (Obj (next_id st) VietnameseMorphemizer),
            st\<lparr>next_id := Suc (next_id st),
               known_words := known_words st @ compounds keys,
               known_words_underscored :=
                 known_words_underscored st @ map (py_replace [0x20] [0x5F]) (compounds keys)\<rparr>)"
  by (simp add: construct_def Let_def Vietnamese_init_valid [OF assms] setKnownWords_eq
        compounds_def)

text \<open>
  C10. The two vocabulary lists belong to the class, not to an object: when two
  Vietnamese strategies are constructed one after the other, each from a valid
  vocabulary file, the lists afterwards hold what they held before, then the compounds
  of the first file, then those of the second, index by index in both lists, and the
  segmentation of the first object and that of the second both read these same lists.
\<close>

theorem shared_vocabulary:
  assumes "frequency_file env1 = Inr rows1" and "rows1 \<noteq> []"
    and "first_column rows1 = Inr keys1" and "hd keys1 \<noteq> sentinel"
    and "frequency_file env2 = Inr rows2" and "rows2 \<noteq> []"
    and "first_column rows2 = Inr keys2" and "hd keys2 \<noteq> sentinel"
  shows "\<exists>st1 st2.
           construct env1 VietnameseMorphemizer st =
             (Inr (Obj (next_id st) VietnameseMorphemizer), st1) \<and>
           construct env2 VietnameseMorphemizer st1 =
             (Inr (Obj (Suc (next_id st)) VietnameseMorphemizer), st2) \<and>
           known_words st2 = known_words st @ compounds keys1 @ compounds keys2 \<and>
           known_words_underscored st2 =
             known_words_underscored st @
             map (py_replace [0x20] [0x5F]) (compounds keys1 @ compounds keys2) \<and>
           inner_getMorphemesFromExpr env' st2 (Obj (next_id st) VietnameseMorphemizer) e =
             Vietnamese_getMorphemesFromExpr (tables env') st2 e \<and>
           inner_getMorphemesFromExpr env' st2 (Obj (Suc (next_id st)) VietnameseMorphemizer) e =
             Vietnamese_getMorphemesFromExpr (tables env') st2 e"
  by (simp add: construct_valid [OF assms(1-4)] construct_valid [OF assms(5-8)]
        inner_getMorphemesFromExpr_def)

theorem shared_vocabulary_witness:
  "known_words
     (snd (construct (example_env\<lparr>frequency_file := Inr [[ascii ''ice cream'']]\<rparr>)
             VietnameseMorphemizer
             (snd (construct (example_env\<lparr>frequency_file := Inr [[ascii ''hot dog'', ascii ''7''], [ascii ''cat'']]\<rparr>)
                     VietnameseMorphemizer module_state)))) =
     [ascii ''hot dog'', ascii ''ice cream'']"
proof -
  let ?env1 = "example_env\<lparr>frequency_file := Inr [[ascii ''hot dog'', ascii ''7''], [ascii ''cat'']]\<rparr>"
  let ?env2 = "example_env\<lparr>frequency_file := Inr [[ascii ''ice cream'']]\<rparr>"
  have a: "frequency_file ?env1 = Inr [[ascii ''hot dog'', ascii ''7''], [ascii ''cat'']]"
    and b: "[[ascii ''hot dog'', ascii ''7''], [ascii ''cat'']] \<noteq> []"
    and c: "first_column [[ascii ''hot dog'', ascii ''7''], [ascii ''cat'']] = Inr [ascii ''hot dog'', ascii ''cat'']"
    and d: "hd [ascii ''hot dog'', ascii ''cat''] \<noteq> sentinel"
    by (simp_all add: sentinel_def ascii_def)
  have a2: "frequency_file ?env2 = Inr [[ascii ''ice cream'']]"
    and b2: "[[ascii ''ice cream'']] \<noteq> []"
    and c2: "first_column [[ascii ''ice cream'']] = Inr [ascii ''ice cream'']"
    and d2: "hd [ascii ''ice cream''] \<noteq> sentinel"
    by (simp_all add: sentinel_def ascii_def)
  have k: "compounds [ascii ''hot dog'', ascii ''cat''] = [ascii ''hot dog'']"
    "compounds [ascii ''ice cream''] = [ascii ''ice cream'']"
    by (simp_all add: compounds_def ascii_def)
  from shared_vocabulary [OF a b c d a2 b2 c2 d2, of module_state example_env "[]"]
  show ?thesis by (auto simp: k module_state_def)
qed

section \<open>Replacing one character\<close>

lemma replace_char:
  "replace_from [a] [b] s = map (\<lambda>c. if c = a then b else c) s"
  by (induction s) (simp_all add: replace_from.simps)

lemma py_replace_char:
  "py_replace [a] [b] s = map (\<lambda>c. if c = a then b else c) s"
  by (simp add: py_replace_def replace_char)

section \<open>Vietnamese segmentation\<close>

lemmas example_text_defs =
  toi_an_banh_mi_def toi_def an_def banh_mi_def banh_mi_joined_def banh_def

lemma letters_facts: assumes "vietnamese_letters U" shows
    "uc_alnum U 0xE1" "uc_alnum U 0xEC" "uc_alnum U 0xF4" "uc_alnum U 0x103"
    "\<not> uc_space U 0xE1" "\<not> uc_space U 0xEC" "\<not> uc_space U 0xF4" "\<not> uc_space U 0x103"
    "\<not> uc_decimal U 0xE1" "\<not> uc_decimal U 0xEC" "\<not> uc_decimal U 0xF4" "\<not> uc_decimal U 0x103"
    "uc_lower U 0xE1 = [0xE1]" "uc_lower U 0xEC = [0xEC]" "uc_lower U 0xF4 = [0xF4]"
    "uc_lower U 0x103 = [0x103]"
    using assms by (simp_all add: vietnamese_letters_def)

lemma lower_toi_an_banh_mi: assumes "vietnamese_letters U" shows "lower U toi_an_banh_mi = toi_an_banh_mi"
    using letters_facts[OF assms] by (simp add: lower_def example_text_defs ascii_def tolower_full_def)

lemma replace_banh_mi: "py_replace banh_mi banh_mi_joined toi_an_banh_mi =
             toi @ ascii '' '' @ an @ ascii '' '' @ banh_mi_joined"
    by (simp add: py_replace_def replace_from.simps example_text_defs ascii_def)


lemma findall_joined: assumes "vietnamese_letters U" shows "findall_words U (toi @ ascii '' '' @ an @ ascii '' '' @ banh_mi_joined) =
             [toi, an, banh_mi_joined]"
    using letters_facts[OF assms] by (simp add: matcher_defs char_class_defs example_text_defs ascii_def)
lemma lower_words: assumes "vietnamese_letters U" shows "lower U toi = toi" "lower U an = an" "lower U banh_mi_joined = banh_mi_joined"
    using letters_facts[OF assms] by (simp_all add: lower_def example_text_defs ascii_def tolower_full_def)
lemma replace_marker: "py_replace [0x5F] [0x20] banh_mi_joined = banh_mi"
    "py_replace [0x5F] [0x20] toi = toi" "py_replace [0x5F] [0x20] an = an"
    by (simp_all add: py_replace_char example_text_defs ascii_def)

lemma segment_toi_an_banh_mi:
  assumes "vietnamese_letters U"
    and "known_words st = [banh_mi]" and "known_words_underscored st = [banh_mi_joined]"
  shows "Vietnamese_getMorphemesFromExpr U st toi_an_banh_mi =
           Inr [Morpheme toi toi toi toi (ascii ''UNKNOWN'') (ascii ''UNKNOWN''),
                Morpheme an an an an (ascii ''UNKNOWN'') (ascii ''UNKNOWN''),
                Morpheme banh_mi_joined banh_mi banh_mi_joined banh_mi_joined
                  (ascii ''UNKNOWN'') (ascii ''UNKNOWN'')]"
  by (simp add: Vietnamese_getMorphemesFromExpr_def assms(2,3) lower_toi_an_banh_mi [OF assms(1)] replace_banh_mi
        Space_getMorphemesFromExpr_def findall_joined [OF assms(1)] lower_words [OF assms(1)] Morpheme_def replace_marker)

lemma letters_excerpt: "vietnamese_letters ucd_excerpt"
  by (simp add: vietnamese_letters_def ucd_excerpt_def)

text \<open>
  C4. Whenever the Vietnamese segmentation returns, its tokens are those that the space
  strategy produces for the text after the substitutions, with every underscore of the
  base field turned into a space and nothing else changed: the normalized, inflected and
  reading fields and both tags are the space strategy's, marker included, and no base
  field holds an underscore.
\<close>

theorem base_only_postprocess:
  assumes "Vietnamese_getMorphemesFromExpr U st expression = Inr tokens"
  shows "\<exists>e_low.
           substitute (known_words st) (known_words_underscored st) 0 (lower U expression) =
             Inr e_low \<and>
           tokens =
             map (\<lambda>m. m\<lparr>base := map (\<lambda>c. if c = 0x5F then 0x20 else c) (base m)\<rparr>)
               (Space_getMorphemesFromExpr U e_low) \<and>
           map norm tokens = map norm (Space_getMorphemesFromExpr U e_low) \<and>
           map inflected tokens = map inflected (Space_getMorphemesFromExpr U e_low) \<and>
           map read tokens = map read (Space_getMorphemesFromExpr U e_low) \<and>
           map pos tokens = map pos (Space_getMorphemesFromExpr U e_low) \<and>
           map subPos tokens = map subPos (Space_getMorphemesFromExpr U e_low) \<and>
           list_all (\<lambda>m. 0x5F \<notin> set (base m)) tokens"
proof -
  from assms obtain e_low where
    s: "substitute (known_words st) (known_words_underscored st) 0 (lower U expression) = Inr e_low"
    and t: "tokens = map (\<lambda>m. m\<lparr>base := map (\<lambda>c. if c = 0x5F then 0x20 else c) (base m)\<rparr>)
                       (Space_getMorphemesFromExpr U e_low)"
    by (auto simp: Vietnamese_getMorphemesFromExpr_def py_replace_char split: sum.splits)
  have "list_all (\<lambda>m. 0x5F \<notin> set (base m)) tokens"
    by (auto simp: t list_all_iff)
  with s t show ?thesis
    by (simp add: comp_def)
qed



theorem base_only_postprocess_witness:
  "Vietnamese_getMorphemesFromExpr ucd_excerpt
     (module_state\<lparr>known_words := [banh_mi], known_words_underscored := [banh_mi_joined]\<rparr>)
     toi_an_banh_mi =
     Inr [Morpheme toi toi toi toi (ascii ''UNKNOWN'') (ascii ''UNKNOWN''),
          Morpheme an an an an (ascii ''UNKNOWN'') (ascii ''UNKNOWN''),
          Morpheme banh_mi_joined banh_mi banh_mi_joined banh_mi_joined
            (ascii ''UNKNOWN'') (ascii ''UNKNOWN'')] \<and>
   map norm (Space_getMorphemesFromExpr ucd_excerpt
               (toi @ ascii '' '' @ an @ ascii '' '' @ banh_mi_joined)) =
     [toi, an, banh_mi_joined]"
proof -
  let ?st = "module_state\<lparr>known_words := [banh_mi], known_words_underscored := [banh_mi_joined]\<rparr>"
  let ?tokens = "[Morpheme toi toi toi toi (ascii ''UNKNOWN'') (ascii ''UNKNOWN''),
          Morpheme an an an an (ascii ''UNKNOWN'') (ascii ''UNKNOWN''),
          Morpheme banh_mi_joined banh_mi banh_mi_joined banh_mi_joined
            (ascii ''UNKNOWN'') (ascii ''UNKNOWN'')]"
  have h: "Vietnamese_getMorphemesFromExpr ucd_excerpt ?st toi_an_banh_mi = Inr ?tokens"
    by (rule segment_toi_an_banh_mi [OF letters_excerpt]) simp_all
  have s: "substitute (known_words ?st) (known_words_underscored ?st) 0
             (lower ucd_excerpt toi_an_banh_mi) =
           Inr (toi @ ascii '' '' @ an @ ascii '' '' @ banh_mi_joined)"
    by (simp add: lower_toi_an_banh_mi [OF letters_excerpt] replace_banh_mi)
  from base_only_postprocess [OF h] obtain e_low where
    e: "substitute (known_words ?st) (known_words_underscored ?st) 0
             (lower ucd_excerpt toi_an_banh_mi) = Inr e_low"
    and n: "map norm ?tokens = map norm (Space_getMorphemesFromExpr ucd_excerpt e_low)"
    by blast
  from e s have "e_low = toi @ ascii '' '' @ an @ ascii '' '' @ banh_mi_joined"
    by simp
  with n h show ?thesis
    by (simp add: Morpheme_def)
qed

section \<open>Longest match\<close>

lemma set_dict_keys: "set (dict_keys ks) = set ks"
proof (induction ks rule: dict_keys.induct)
  case 1
  show ?case by simp
next
  case (2 k ks)
  have "set (dict_keys (k # ks)) = insert k (set (dict_keys (filter (\<lambda>x. x \<noteq> k) ks)))"
    by simp
  also have "\<dots> = insert k (set (filter (\<lambda>x. x \<noteq> k) ks))"
    by (simp only: 2)
  also have "\<dots> = set (k # ks)"
    by auto
  finally show ?case .
qed

lemma distinct_dict_keys: "distinct (dict_keys ks)"
proof (induction ks rule: dict_keys.induct)
  case 1
  show ?case by simp
next
  case (2 k ks)
  have "k \<notin> set (dict_keys (filter (\<lambda>x. x \<noteq> k) ks))"
    by (simp add: set_dict_keys)
  with 2 show ?case by simp
qed

lemma filter_single:
  "distinct xs \<Longrightarrow> a \<in> set xs \<Longrightarrow> P a \<Longrightarrow> (\<And>x. x \<in> set xs \<Longrightarrow> P x \<Longrightarrow> x = a) \<Longrightarrow>
   filter P xs = [a]"
proof (induction xs)
  case Nil
  from Nil.prems(2) show ?case by simp
next
  case (Cons x xs)
  from Cons.prems(1) have nx: "x \<notin> set xs" and d: "distinct xs"
    by simp_all
  have imp: "y = a" if "y \<in> set xs" and "P y" for y
    using that Cons.prems(4) [of y] by simp
  show ?case
  proof (cases "x = a")
    case True
    have "\<not> P y" if "y \<in> set xs" for y
      using that imp [of y] nx True by blast
    then have "filter P xs = []"
      by (simp add: filter_empty_conv)
    with True Cons.prems(3) show ?thesis
      by simp
  next
    case False
    have "\<not> P x"
      using Cons.prems(4) [of x] False by auto
    moreover from Cons.prems(2) False have "a \<in> set xs"
      by simp
    with d have "filter P xs = [a]"
      by (rule Cons.IH) (rule Cons.prems(3), rule imp)
    ultimately show ?thesis
      by simp
  qed
qed
lemma compounds_single:
  assumes "a \<in> set keys" and "0x20 \<in> set a" and "\<forall>w\<in>set keys. 0x20 \<in> set w \<longrightarrow> w = a"
  shows "compounds keys = [a]"
  unfolding compounds_def
proof (rule filter_single)
  show "distinct (rev (sort_key length (dict_keys keys)))"
    by (simp add: distinct_dict_keys)
  show "a \<in> set (rev (sort_key length (dict_keys keys)))"
    using assms(1) by (simp add: set_dict_keys)
  show "0x20 \<in> set a" by (rule assms(2))
  fix x
  assume "x \<in> set (rev (sort_key length (dict_keys keys)))" and s: "0x20 \<in> set x"
  then have "x \<in> set keys"
    by (simp add: set_dict_keys)
  with assms(3) s show "x = a"
    by blast
qed

text \<open>
  C3. Let the four Vietnamese letters be letters in the Unicode tables, and let the
  vocabulary file hold both \<open>banh_mi\<close> (with a space) and \<open>banh\<close> among
  its first-column entries, \<open>banh_mi\<close> being the only entry with a space. Then the
  first Vietnamese strategy constructed from it segments \<open>toi_an_banh_mi\<close> into three
  morphemes, the last of which has the base \<open>banh_mi\<close>: one morpheme for the compound,
  not one for \<open>banh\<close> and one for the last word.
\<close>

theorem longest_match:
  assumes "vietnamese_letters (tables env)"
    and "frequency_file env = Inr rows" and "first_column rows = Inr keys"
    and "hd keys \<noteq> sentinel"
    and "banh_mi \<in> set keys" and "banh \<in> set keys"
    and "\<forall>w\<in>set keys. 0x20 \<in> set w \<longrightarrow> w = banh_mi"
    and "known_words st = []" and "known_words_underscored st = []"
  shows "\<exists>st1.
           construct env VietnameseMorphemizer st =
             (Inr (Obj (next_id st) VietnameseMorphemizer), st1) \<and>
           inner_getMorphemesFromExpr env st1 (Obj (next_id st) VietnameseMorphemizer)
               toi_an_banh_mi =
             Inr [Morpheme toi toi toi toi (ascii ''UNKNOWN'') (ascii ''UNKNOWN''),
                  Morpheme an an an an (ascii ''UNKNOWN'') (ascii ''UNKNOWN''),
                  Morpheme banh_mi_joined banh_mi banh_mi_joined banh_mi_joined
                    (ascii ''UNKNOWN'') (ascii ''UNKNOWN'')]"
proof -
  from assms(3,5) have rows: "rows \<noteq> []"
    by auto
  have sp: "0x20 \<in> set banh_mi"
    by (simp add: banh_mi_def ascii_def)
  have c: "compounds keys = [banh_mi]"
    by (rule compounds_single [OF assms(5) sp assms(7)])
  have j: "py_replace [0x20] [0x5F] banh_mi = banh_mi_joined"
    by (simp add: py_replace_char banh_mi_def banh_mi_joined_def ascii_def)
  let ?st1 = "st\<lparr>next_id := Suc (next_id st), known_words := known_words st @ compounds keys,
                  known_words_underscored :=
                    known_words_underscored st @ map (py_replace [0x20] [0x5F]) (compounds keys)\<rparr>"
  have k: "known_words ?st1 = [banh_mi]" "known_words_underscored ?st1 = [banh_mi_joined]"
    by (simp_all add: c j assms(8,9))
  have "inner_getMorphemesFromExpr env ?st1 (Obj (next_id st) VietnameseMorphemizer) toi_an_banh_mi =
          Vietnamese_getMorphemesFromExpr (tables env) ?st1 toi_an_banh_mi"
    by (simp add: inner_getMorphemesFromExpr_def)
  also note segment_toi_an_banh_mi [OF assms(1) k]
  finally show ?thesis
    using construct_valid [OF assms(2) rows assms(3,4), of st] by simp
qed

theorem longest_match_witness:
  "map base
     (projr (inner_getMorphemesFromExpr (example_env\<lparr>frequency_file := Inr [[banh], [banh_mi]]\<rparr>)
        (snd (construct (example_env\<lparr>frequency_file := Inr [[banh], [banh_mi]]\<rparr>)
                VietnameseMorphemizer module_state))
        (Obj 0 VietnameseMorphemizer) toi_an_banh_mi)) = [toi, an, banh_mi]"
proof -
  let ?env = "example_env\<lparr>frequency_file := Inr [[banh], [banh_mi]]\<rparr>"
  have a: "vietnamese_letters (tables ?env)"
    by (simp add: example_env_def letters_excerpt)
  have b: "frequency_file ?env = Inr [[banh], [banh_mi]]"
    and c: "first_column [[banh], [banh_mi]] = Inr [banh, banh_mi]"
    and d: "hd [banh, banh_mi] \<noteq> sentinel"
    and e: "banh_mi \<in> set [banh, banh_mi]" and f: "banh \<in> set [banh, banh_mi]"
    and g: "\<forall>w\<in>set [banh, banh_mi]. 0x20 \<in> set w \<longrightarrow> w = banh_mi"
    and h: "known_words module_state = []" and i: "known_words_underscored module_state = []"
    by (simp_all add: sentinel_def banh_def banh_mi_def ascii_def module_state_def)
  have n: "next_id module_state = 0"
    by (simp add: module_state_def)
  from longest_match [OF a b c d e f g h i] obtain st1 where
    c1: "construct ?env VietnameseMorphemizer module_state =
           (Inr (Obj (next_id module_state) VietnameseMorphemizer), st1)"
    and s1: "inner_getMorphemesFromExpr ?env st1 (Obj (next_id module_state) VietnameseMorphemizer)
               toi_an_banh_mi =
             Inr [Morpheme toi toi toi toi (ascii ''UNKNOWN'') (ascii ''UNKNOWN''),
                  Morpheme an an an an (ascii ''UNKNOWN'') (ascii ''UNKNOWN''),
                  Morpheme banh_mi_joined banh_mi banh_mi_joined banh_mi_joined
                    (ascii ''UNKNOWN'') (ascii ''UNKNOWN'')]"
    by blast
  from c1 have "snd (construct ?env VietnameseMorphemizer module_state) = st1"
    by simp
  with s1 show ?thesis
    by (simp only: n sum.sel list.map Morpheme_def morpheme.simps)
qed

section \<open>Lower case and the expression of the space strategy\<close>

lemma case_stableD:
  assumes "case_stable U c"
  shows "c \<noteq> 0x3A3" and "tolower_full U c = [simple_lower U c]"
    and "simple_lower U c \<noteq> 0x3A3" and "simple_lower U c \<noteq> 0x5F"
    and "tolower_full U (simple_lower U c) = [simple_lower U c]"
    and "is_word U (simple_lower U c) = is_word U c"
    and "in_run U (simple_lower U c) = in_run U c"
  using assms
  by (auto simp: case_stable_def simple_lower_def split: list.splits)

lemma case_stable_ascii: "c < 128 \<Longrightarrow> c \<noteq> 0x5F \<Longrightarrow> case_stable U c"
  by (auto simp: case_stable_def char_class_defs)

lemma case_stable_lower: "case_stable U c \<Longrightarrow> case_stable U (simple_lower U c)"
proof -
  assume s: "case_stable U c"
  note d = case_stableD [OF s]
  show ?thesis
    by (simp add: case_stable_def d(3,4,5))
qed

lemma simple_lower_idem:
  "case_stable U c \<Longrightarrow> simple_lower U (simple_lower U c) = simple_lower U c"
proof -
  assume s: "case_stable U c"
  from case_stableD(5) [OF s] show ?thesis
    by (simp add: simple_lower_def [of U "simple_lower U c"])
qed

lemma lower_from_stable:
  "list_all (case_stable U) s \<Longrightarrow> lower_from U p s = map (simple_lower U) s"
proof (induction s arbitrary: p)
  case Nil
  show ?case by simp
next
  case (Cons c s)
  from Cons.prems have c: "case_stable U c" and s: "list_all (case_stable U) s"
    by simp_all
  from case_stableD(1,2) [OF c] Cons.IH [OF s] show ?case
    by simp
qed

lemma lower_stable: "list_all (case_stable U) s \<Longrightarrow> lower U s = map (simple_lower U) s"
  by (simp add: lower_def lower_from_stable)

lemma at_boundary_map:
  assumes "list_all (keeps_classes U f) rest"
    and "case prev of None \<Rightarrow> True | Some p \<Rightarrow> keeps_classes U f p"
  shows "at_boundary U (map_option f prev) (map f rest) = at_boundary U prev rest"
  using assms
  by (cases prev; cases rest) (simp_all add: at_boundary_def keeps_classes_def)

lemma run_length_map:
  assumes "list_all (keeps_classes U f) rest"
  shows "length (takeWhile (in_run U) (map f rest)) = length (takeWhile (in_run U) rest)"
  using assms
  by (induction rest) (simp_all add: keeps_classes_def)

lemma backtrack_map:
  assumes "list_all (keeps_classes U f) rest" and "n \<le> length rest"
  shows "backtrack U (map f rest) n = backtrack U rest n"
  using assms(2)
proof (induction n)
  case 0
  show ?case by simp
next
  case (Suc k)
  then have k: "k < length rest" by simp
  from assms(1) k have pk: "keeps_classes U f (rest ! k)"
    by (simp add: list_all_length)
  from assms(1) have dk: "list_all (keeps_classes U f) (drop (Suc k) rest)"
    by (auto simp: list_all_iff dest: in_set_dropD)
  have "at_boundary U (Some ((map f rest) ! k)) (drop (Suc k) (map f rest)) =
        at_boundary U (map_option f (Some (rest ! k))) (map f (drop (Suc k) rest))"
    using k by (simp add: drop_map)
  also have "\<dots> = at_boundary U (Some (rest ! k)) (drop (Suc k) rest)"
    by (rule at_boundary_map [OF dk]) (simp add: pk)
  finally show ?case
    using Suc by simp
qed

lemma match_at_map:
  assumes "list_all (keeps_classes U f) rest"
    and "case prev of None \<Rightarrow> True | Some p \<Rightarrow> keeps_classes U f p"
  shows "match_at U (map_option f prev) (map f rest) = match_at U prev rest"
proof -
  have "backtrack U (map f rest) (length (takeWhile (in_run U) rest)) =
        backtrack U rest (length (takeWhile (in_run U) rest))"
    by (rule backtrack_map [OF assms(1)]) (rule length_takeWhile_le)
  then show ?thesis
    by (simp add: match_at_def at_boundary_map [OF assms] run_length_map [OF assms(1)])
qed

lemma match_at_range: "match_at U prev rest = Some k \<Longrightarrow> 0 < k \<and> k \<le> length rest"
proof -
  have bt: "backtrack U rest n = Some j \<Longrightarrow> 0 < j \<and> j \<le> n" for n j
    by (induction n) (auto split: if_splits)
  assume "match_at U prev rest = Some k"
  then have "backtrack U rest (length (takeWhile (in_run U) rest)) = Some k"
    by (simp add: match_at_def split: if_splits)
  then have "0 < k \<and> k \<le> length (takeWhile (in_run U) rest)"
    by (rule bt)
  moreover have "length (takeWhile (in_run U) rest) \<le> length rest"
    by (rule length_takeWhile_le)
  ultimately show ?thesis by linarith
qed

lemma findall_from_map:
  assumes "list_all (keeps_classes U f) rest"
    and "case prev of None \<Rightarrow> True | Some p \<Rightarrow> keeps_classes U f p"
  shows "findall_from U (map_option f prev) (map f rest) = map (map f) (findall_from U prev rest)"
  using assms
proof (induction U prev rest rule: findall_from.induct)
  case (1 U prev rest)
  note m = match_at_map [OF "1.prems"]
  show ?case
  proof (cases "match_at U prev rest")
    case None
    show ?thesis
    proof (cases rest)
      case Nil
      with None m show ?thesis
        by (simp add: findall_from.simps [of U _ "[]"])
    next
      case (Cons c cs)
      from "1.prems"(1) Cons have c: "keeps_classes U f c" and cs: "list_all (keeps_classes U f) cs"
        by simp_all
      have ih: "findall_from U (map_option f (Some c)) (map f cs) =
                map (map f) (findall_from U (Some c) cs)"
        by (rule "1.IH"(1) [OF None Cons cs]) (simp add: c)
      have "findall_from U (map_option f prev) (map f rest) = findall_from U (Some (f c)) (map f cs)"
        using None m Cons by (simp add: findall_from.simps [of U "map_option f prev" "f c # map f cs"])
      also have "\<dots> = map (map f) (findall_from U (Some c) cs)"
        using ih by simp
      also have "\<dots> = map (map f) (findall_from U prev rest)"
        using None Cons by (simp add: findall_from.simps [of U prev "c # cs"])
      finally show ?thesis .
    qed
  next
    case (Some k)
    from match_at_range [OF Some] have k: "0 < k" "k \<le> length rest"
      by simp_all
    then have k1: "k - 1 < length rest" by simp
    from "1.prems"(1) k1 have pk: "keeps_classes U f (rest ! (k - 1))"
      by (simp add: list_all_length)
    from "1.prems"(1) have dk: "list_all (keeps_classes U f) (drop k rest)"
      by (auto simp: list_all_iff dest: in_set_dropD)
    have ih: "findall_from U (map_option f (Some (rest ! (k - 1)))) (map f (drop k rest)) =
              map (map f) (findall_from U (Some (rest ! (k - 1))) (drop k rest))"
    proof (rule "1.IH"(2) [OF Some dk])
      from pk show "case Some (rest ! (k - 1)) of None \<Rightarrow> True | Some p \<Rightarrow> keeps_classes U f p"
        by simp
    qed
    have "findall_from U (map_option f prev) (map f rest) =
          take k (map f rest) #
          findall_from U (Some ((map f rest) ! (k - 1))) (drop k (map f rest))"
      using Some m by (simp add: findall_from.simps [of U "map_option f prev"])
    also have "\<dots> = map f (take k rest) #
                    findall_from U (map_option f (Some (rest ! (k - 1)))) (map f (drop k rest))"
      using k1 by (simp add: take_map drop_map)
    also have "\<dots> = map (map f) (take k rest # findall_from U (Some (rest ! (k - 1))) (drop k rest))"
      using ih by simp
    also have "\<dots> = map (map f) (findall_from U prev rest)"
      using Some by (simp add: findall_from.simps [of U prev rest])
    finally show ?thesis .
  qed
qed

lemma findall_from_chars:
  "w \<in> set (findall_from U prev rest) \<Longrightarrow> set w \<subseteq> set rest"
proof (induction U prev rest rule: findall_from.induct)
  case (1 U prev rest)
  show ?case
  proof (cases "match_at U prev rest")
    case None
    show ?thesis
    proof (cases rest)
      case Nil
      with None "1.prems" show ?thesis
        by (simp add: findall_from.simps [of U prev "[]"])
    next
      case (Cons c cs)
      with None "1.prems" have "w \<in> set (findall_from U (Some c) cs)"
        by (simp add: findall_from.simps [of U prev "c # cs"])
      from "1.IH"(1) [OF None Cons this] Cons show ?thesis
        by auto
    qed
  next
    case (Some k)
    with "1.prems" have "w = take k rest \<or> w \<in> set (findall_from U (Some (rest ! (k - 1))) (drop k rest))"
      by (simp add: findall_from.simps [of U prev rest])
    then show ?thesis
    proof
      assume "w = take k rest"
      then show ?thesis
        by (simp add: set_take_subset)
    next
      assume "w \<in> set (findall_from U (Some (rest ! (k - 1))) (drop k rest))"
      from "1.IH"(2) [OF Some this] have "set w \<subseteq> set (drop k rest)" .
      also have "\<dots> \<subseteq> set rest"
        by (rule set_drop_subset)
      finally show ?thesis .
    qed
  qed
qed

section \<open>Degradation without a vocabulary\<close>

lemma construct_absent:
  assumes "frequency_file env = Inl FileNotFoundError"
  shows "construct env VietnameseMorphemizer st =
           (Inr (Obj (next_id st) VietnameseMorphemizer), st\<lparr>next_id := Suc (next_id st)\<rparr>)"
  using assms
  by (simp add: construct_def Vietnamese_init_def Vietnamese_init_body_def Let_def)

lemma Vietnamese_no_vocabulary:
  assumes "known_words st = []"
  shows "Vietnamese_getMorphemesFromExpr U st e =
           Inr (map (\<lambda>m. m\<lparr>base := map (\<lambda>c. if c = 0x5F then 0x20 else c) (base m)\<rparr>)
                  (Space_getMorphemesFromExpr U (lower U e)))"
  by (simp add: Vietnamese_getMorphemesFromExpr_def assms py_replace_char)

lemma stable_word:
  assumes "list_all (case_stable U) w"
  shows "lower U w = map (simple_lower U) w"
    and "lower U (map (simple_lower U) w) = map (simple_lower U) w"
    and "0x5F \<notin> set (map (simple_lower U) w)"
proof -
  show "lower U w = map (simple_lower U) w"
    by (rule lower_stable [OF assms])
  from assms have l: "list_all (case_stable U) (map (simple_lower U) w)"
    by (simp add: list_all_iff case_stable_lower)
  have "lower U (map (simple_lower U) w) = map (simple_lower U) (map (simple_lower U) w)"
    by (rule lower_stable [OF l])
  also have "\<dots> = map (simple_lower U) w"
    using assms by (simp add: list_all_iff simple_lower_idem)
  finally show "lower U (map (simple_lower U) w) = map (simple_lower U) w" .
  show "0x5F \<notin> set (map (simple_lower U) w)"
  proof
    assume "0x5F \<in> set (map (simple_lower U) w)"
    then obtain c where c: "c \<in> set w" and e: "simple_lower U c = 0x5F"
      by auto
    from assms c have "case_stable U c"
      by (simp add: list_all_iff)
    from case_stableD(4) [OF this] e show False
      by simp
  qed
qed

lemma findall_words_lower:
  assumes "list_all (case_stable U) e"
  shows "findall_words U (lower U e) = map (map (simple_lower U)) (findall_words U e)"
proof -
  from assms have k: "list_all (keeps_classes U (simple_lower U)) e"
    by (simp add: list_all_iff keeps_classes_def case_stableD(6,7))
  have "findall_from U (map_option (simple_lower U) None) (map (simple_lower U) e) =
        map (map (simple_lower U)) (findall_from U None e)"
    by (rule findall_from_map [OF k]) simp
  then show ?thesis
    by (simp add: findall_words_def lower_stable [OF assms])
qed

lemma Vietnamese_is_Space:
  assumes "known_words st = []" and "list_all (case_stable U) e"
  shows "Vietnamese_getMorphemesFromExpr U st e = Inr (Space_getMorphemesFromExpr U e)"
proof -
  let ?f = "simple_lower U"
  let ?post = "\<lambda>m. m\<lparr>base := map (\<lambda>c. if c = 0x5F then 0x20 else c) (base m)\<rparr>"
  let ?mk = "\<lambda>word. Morpheme word word word word (ascii ''UNKNOWN'') (ascii ''UNKNOWN'')"
  have w: "?post (?mk (lower U (map ?f w))) = ?mk (lower U w)"
    if "w \<in> set (findall_words U e)" for w
  proof -
    from that have "set w \<subseteq> set e"
      unfolding findall_words_def by (rule findall_from_chars)
    with assms(2) have s: "list_all (case_stable U) w"
      by (auto simp: list_all_iff)
    note f = stable_word [OF s]
    have "map (\<lambda>c. if c = 0x5F then 0x20 else c) (map ?f w) = map ?f w"
    proof (rule map_idI)
      fix x
      assume "x \<in> set (map ?f w)"
      with f(3) have "x \<noteq> 0x5F"
        by blast
      then show "(if x = 0x5F then 0x20 else x) = x"
        by simp
    qed
    then show ?thesis
      by (simp add: f(1,2) Morpheme_def)
  qed
  have "map ?post (Space_getMorphemesFromExpr U (lower U e)) =
        map (\<lambda>w. ?post (?mk (lower U (map ?f w)))) (findall_words U e)"
    by (simp add: Space_getMorphemesFromExpr_def findall_words_lower [OF assms(2)] comp_def)
  also have "\<dots> = map (\<lambda>w. ?mk (lower U w)) (findall_words U e)"
    by (rule map_cong [OF refl]) (rule w)
  also have "\<dots> = Space_getMorphemesFromExpr U e"
    by (simp add: Space_getMorphemesFromExpr_def comp_def)
  finally show ?thesis
    by (simp add: Vietnamese_no_vocabulary [OF assms(1)])
qed

text \<open>
  C1, as stated, fails for an expression with an underscore: with the vocabulary file
  absent the Vietnamese strategy still turns the underscores of the base field into
  spaces, so for \<open>"a_b"\<close> its morpheme has the base \<open>"a b"\<close> where the space strategy's
  has \<open>"a_b"\<close>.
\<close>

theorem underscore_differs:
  "construct example_env VietnameseMorphemizer module_state =
     (Inr (Obj 0 VietnameseMorphemizer), module_state\<lparr>next_id := 1\<rparr>) \<and>
   inner_getMorphemesFromExpr example_env (module_state\<lparr>next_id := 1\<rparr>)
     (Obj 0 VietnameseMorphemizer) (ascii ''a_b'') =
     Inr [\<lparr>norm = ascii ''a_b'', base = ascii ''a b'', inflected = ascii ''a_b'',
           read = ascii ''a_b'', pos = ascii ''UNKNOWN'', subPos = ascii ''UNKNOWN''\<rparr>] \<and>
   inner_getMorphemesFromExpr example_env (module_state\<lparr>next_id := 1\<rparr>)
     (Obj 1 SpaceMorphemizer) (ascii ''a_b'') =
     Inr [\<lparr>norm = ascii ''a_b'', base = ascii ''a_b'', inflected = ascii ''a_b'',
           read = ascii ''a_b'', pos = ascii ''UNKNOWN'', subPos = ascii ''UNKNOWN''\<rparr>] \<and>
   ascii ''a b'' \<noteq> ascii ''a_b''"
proof -
  have a: "frequency_file example_env = Inl FileNotFoundError"
    by (simp add: example_env_def)
  have n: "next_id module_state = 0" and k: "known_words (module_state\<lparr>next_id := 1\<rparr>) = []"
    by (simp_all add: module_state_def)
  have l: "lower U (ascii ''a_b'') = ascii ''a_b''" for U
    by (simp add: lower_def ascii_def tolower_full_def)
  have s: "Space_getMorphemesFromExpr U (ascii ''a_b'') =
             [\<lparr>norm = ascii ''a_b'', base = ascii ''a_b'', inflected = ascii ''a_b'',
               read = ascii ''a_b'', pos = ascii ''UNKNOWN'', subPos = ascii ''UNKNOWN''\<rparr>]" for U
    by (simp add: Space_getMorphemesFromExpr_def matcher_defs char_class_defs ascii_def lower_def
          Morpheme_def)
  have p: "map (\<lambda>c. if c = 0x5F then 0x20 else c) (ascii ''a_b'') = ascii ''a b''"
    by (simp add: ascii_def)
  have v: "Vietnamese_getMorphemesFromExpr U (module_state\<lparr>next_id := 1\<rparr>) (ascii ''a_b'') =
             Inr [\<lparr>norm = ascii ''a_b'', base = ascii ''a b'', inflected = ascii ''a_b'',
                   read = ascii ''a_b'', pos = ascii ''UNKNOWN'', subPos = ascii ''UNKNOWN''\<rparr>]" for U
    unfolding Vietnamese_no_vocabulary [OF k] l s by (simp add: p)
  have d: "ascii ''a b'' \<noteq> ascii ''a_b''"
    by (simp add: ascii_def)
  from construct_absent [OF a, of module_state] n v s d show ?thesis
    by (simp add: inner_getMorphemesFromExpr_def)
qed

text \<open>
  C1, amended. With the vocabulary file absent, the first Vietnamese strategy is
  constructed without an error and its segmentation of any expression returns, without
  an error, the space strategy's morphemes of the lower-cased expression with the
  underscores of each base field turned into spaces. For every expression made of
  case-stable characters (so without underscores; any ASCII text without underscores is
  one) this is the space strategy's own result for the expression.
\<close>

theorem degradation:
  assumes "frequency_file env = Inl FileNotFoundError" and "known_words st = []"
  shows "\<exists>st1.
           construct env VietnameseMorphemizer st =
             (Inr (Obj (next_id st) VietnameseMorphemizer), st1) \<and>
           inner_getMorphemesFromExpr env st1 (Obj i VietnameseMorphemizer) e =
             Inr (map (\<lambda>m. m\<lparr>base := map (\<lambda>c. if c = 0x5F then 0x20 else c) (base m)\<rparr>)
                    (Space_getMorphemesFromExpr (tables env) (lower (tables env) e))) \<and>
           (list_all (case_stable (tables env)) e \<longrightarrow>
              inner_getMorphemesFromExpr env st1 (Obj i VietnameseMorphemizer) e =
              inner_getMorphemesFromExpr env st1 (Obj j SpaceMorphemizer) e)"
proof -
  let ?st1 = "st\<lparr>next_id := Suc (next_id st)\<rparr>"
  have k: "known_words ?st1 = []"
    using assms(2) by simp
  have "inner_getMorphemesFromExpr env ?st1 (Obj i VietnameseMorphemizer) e =
          inner_getMorphemesFromExpr env ?st1 (Obj j SpaceMorphemizer) e"
    if "list_all (case_stable (tables env)) e"
    using Vietnamese_is_Space [OF k that] by (simp add: inner_getMorphemesFromExpr_def)
  with construct_absent [OF assms(1), of st] Vietnamese_no_vocabulary [OF k, of "tables env" e]
  show ?thesis
    by (simp add: inner_getMorphemesFromExpr_def)
qed

theorem degradation_witness:
  "list_all (case_stable (tables example_env)) (ascii ''The Quick fox2 jumps'') \<and>
   inner_getMorphemesFromExpr example_env
     (snd (construct example_env VietnameseMorphemizer module_state))
     (Obj 0 VietnameseMorphemizer) (ascii ''The Quick fox2 jumps'') =
   inner_getMorphemesFromExpr example_env
     (snd (construct example_env VietnameseMorphemizer module_state))
     (Obj 1 SpaceMorphemizer) (ascii ''The Quick fox2 jumps'')"
proof -
  have a: "frequency_file example_env = Inl FileNotFoundError"
    by (simp add: example_env_def)
  have k: "known_words module_state = []"
    by (simp add: module_state_def)
  have s: "list_all (case_stable (tables example_env)) (ascii ''The Quick fox2 jumps'')"
    by (simp add: ascii_def case_stable_ascii)
  from degradation [OF a k, of 0 "ascii ''The Quick fox2 jumps''" 1] obtain st1 where
    c: "construct example_env VietnameseMorphemizer module_state =
          (Inr (Obj (next_id module_state) VietnameseMorphemizer), st1)"
    and i: "list_all (case_stable (tables example_env)) (ascii ''The Quick fox2 jumps'') \<longrightarrow>
          inner_getMorphemesFromExpr example_env st1 (Obj 0 VietnameseMorphemizer)
            (ascii ''The Quick fox2 jumps'') =
          inner_getMorphemesFromExpr example_env st1 (Obj 1 SpaceMorphemizer)
            (ascii ''The Quick fox2 jumps'')"
    by blast
  from c have "snd (construct example_env VietnameseMorphemizer module_state) = st1"
    by simp
  with i s show ?thesis
    by simp
qed

end
